theory Spec2Isabelle
  imports Main "HOL-Library.Word"
begin

section \<open>Data model of \<open>src/main.cpp\<close>\<close>

text \<open>
  The C++ \<open>int\<close> is a 32-bit two's complement integer: a \<open>32 word\<close>, compared with the
  signed orders \<open>word_sle\<close> and \<open>word_sless\<close> and read with \<open>sint\<close>. The increment and decrement of
  the two static counters wrap around, as they do on the usual targets (the language itself
  leaves the overflow of a signed counter undefined).
\<close>

type_synonym cint = "32 word"

definition MAX_NAME :: nat where "MAX_NAME = 32"
definition MAX_HEALTH :: cint where "MAX_HEALTH = 1000"
definition MAX_POWER :: cint where "MAX_POWER = 500"

text \<open>One constructor for each \<open>throw invalid_argument(...)\<close> of the class, in source order.\<close>

datatype error =
    HealthNotPositive
  | HealthTooHigh
  | AttackPowerTooHigh
  | EmptyName
  | NameMustStartUppercase
  | NameTooLong
  | NameTrailingSpace
  | NameDoubleSpace
  | NameInvalidCharacter

text \<open>The class \<open>GameCharacter\<close>: its four data members and its two static members.\<close>

record GameCharacter =
  name :: string
  health :: cint
  attackPower :: cint
  id' :: cint

record statics =
  uniqueId :: cint
  ObjectCount :: cint

text \<open>\<open>int GameCharacter::uniqueId = 0; int GameCharacter::ObjectCount = 0;\<close>\<close>

definition statics0 :: statics where
  "statics0 = \<lparr>uniqueId = 0, ObjectCount = 0\<rparr>"

section \<open>Characters and decimal rendering\<close>

text \<open>
  A \<open>char\<close> operand of \<open><\<close> or \<open>>\<close> is promoted to \<open>int\<close>. With a signed \<open>char\<close> the bytes
  from 128 on are negative; with an unsigned one they are not. \<open>char_int\<close> takes the
  signedness as its first argument; the letter tests below decide the same for both
  (lemmas \<open>outside_upper\<close> and \<open>outside_lower\<close>), and the model fixes the signed reading.
\<close>

definition char_int :: "bool \<Rightarrow> char \<Rightarrow> int" where
  "char_int sg c =
     (if sg \<and> 128 \<le> (of_char c :: nat) then int (of_char c) - 256 else int (of_char c))"

text \<open>\<open>!(c < 'A' || c > 'Z')\<close> and \<open>!(c < 'a' || c > 'z')\<close>.\<close>

definition outside :: "bool \<Rightarrow> char \<Rightarrow> char \<Rightarrow> char \<Rightarrow> bool" where
  "outside sg lo hi c \<longleftrightarrow> char_int sg c < char_int sg lo \<or> char_int sg c > char_int sg hi"

text \<open>
  \<open>s[i]\<close> of a \<open>std::string\<close>: defined for \<open>i \<le> s.length()\<close>, and the position one past the
  last character reads as the NUL character.
\<close>

definition at :: "string \<Rightarrow> nat \<Rightarrow> char" where
  "at s i = (if i < length s then s ! i else CHR 0x00)"

text \<open>Decimal rendering of an \<open>int\<close>, as \<open>operator<<\<close> and \<open>to_string\<close> produce it.\<close>

definition digit :: "nat \<Rightarrow> char" where
  "digit d = char_of (of_char (CHR ''0'') + d)"

fun digits :: "nat \<Rightarrow> string" where
  "digits n = (if n < 10 then [digit n] else digits (n div 10) @ [digit (n mod 10)])"

declare digits.simps [simp del]

definition to_string :: "int \<Rightarrow> string" where
  "to_string i = (if i < 0 then CHR ''-'' # digits (nat (- i)) else digits (nat i))"

text \<open>The message each exception carries, as \<open>what()\<close> returns it.\<close>

fun what :: "error \<Rightarrow> string" where
  "what HealthNotPositive = ''Health must be positive or -1 for invincible character.''"
| "what HealthTooHigh = ''Health cannot exceed '' @ to_string (sint MAX_HEALTH) @ ''.''"
| "what AttackPowerTooHigh = ''Attack power cannot exceed '' @ to_string (sint MAX_POWER) @ ''.''"
| "what EmptyName = ''Character name cannot be empty.''"
| "what NameMustStartUppercase = ''Name must start with an uppercase letter.''"
| "what NameTooLong = ''Name length cannot exceed '' @ to_string (int MAX_NAME) @ '' characters.''"
| "what NameTrailingSpace = ''Invalid character name. Last character cannot be space.''"
| "what NameDoubleSpace =
     ''Invalid character name. It should not contain spaces following another space.''"
| "what NameInvalidCharacter = ''Name must contain only alphabetic characters and spaces.''"

section \<open>Validation\<close>

text \<open>\<open>validateHealth\<close>, lines 186-193.\<close>

definition validateHealth :: "cint \<Rightarrow> error + unit" where
  "validateHealth characterHealth =
     (if characterHealth \<le>s 0 \<and> characterHealth \<noteq> - 1 then Inl HealthNotPositive
      else if MAX_HEALTH <s characterHealth then Inl HealthTooHigh
      else Inr ())"

text \<open>\<open>validateAttackPower\<close>, lines 204-208.\<close>

definition validateAttackPower :: "cint \<Rightarrow> error + unit" where
  "validateAttackPower characterAttackPower =
     (if MAX_POWER <s characterAttackPower then Inl AttackPowerTooHigh else Inr ())"

text \<open>
  The loop of \<open>validateName\<close>, lines 229-244: \<open>i\<close> is the loop index and \<open>space\<close> the flag.
\<close>

function validateName_loop :: "string \<Rightarrow> nat \<Rightarrow> bool \<Rightarrow> error + unit" where
  "validateName_loop characterName i space =
     (if i < length characterName then
        if at characterName i = CHR '' '' \<and> at characterName (i + 1) = CHR 0x00
        then Inl NameTrailingSpace
        else if outside True CHR ''A'' CHR ''Z'' (at characterName i)
              \<and> outside True CHR ''a'' CHR ''z'' (at characterName i)
        then (if at characterName i = CHR '' '' \<and> \<not> space
              then validateName_loop characterName (i + 1) True
              else if space then Inl NameDoubleSpace
              else Inl NameInvalidCharacter)
        else validateName_loop characterName (i + 1) False
      else Inr ())"
  by pat_completeness auto
termination
  by (relation "measure (\<lambda>(characterName, i, space). length characterName - i)") auto

declare validateName_loop.simps [simp del]

text \<open>\<open>validateName\<close>, lines 219-245.\<close>

definition validateName :: "string \<Rightarrow> error + unit" where
  "validateName characterName =
     (if characterName = [] then Inl EmptyName
      else if outside True CHR ''A'' CHR ''Z'' (at characterName 0) then Inl NameMustStartUppercase
      else if length characterName > MAX_NAME then Inl NameTooLong
      else validateName_loop characterName 0 False)"

section \<open>Member functions\<close>

text \<open>
  A member function runs on the object \<open>this\<close> and the static members. A \<open>throw\<close> is the
  left injection, with the state as it is at the \<open>throw\<close>; normal completion is the right one.
\<close>

type_synonym state = "GameCharacter \<times> statics"
type_synonym outcome = "error \<times> state + state"

text \<open>\<open>setName\<close>, lines 71-74.\<close>

fun setName :: "string \<Rightarrow> state \<Rightarrow> outcome" where
  "setName characterName (this, g) =
     (case validateName characterName of
        Inl e \<Rightarrow> Inl (e, (this, g))
      | Inr _ \<Rightarrow> Inr (this\<lparr>name := characterName\<rparr>, g))"

text \<open>\<open>setHealth\<close>, lines 161-164.\<close>

fun setHealth :: "cint \<Rightarrow> state \<Rightarrow> outcome" where
  "setHealth characterHealth (this, g) =
     (case validateHealth characterHealth of
        Inl e \<Rightarrow> Inl (e, (this, g))
      | Inr _ \<Rightarrow> Inr (this\<lparr>health := characterHealth\<rparr>, g))"

text \<open>\<open>setAttackPower\<close>, lines 172-175.\<close>

fun setAttackPower :: "cint \<Rightarrow> state \<Rightarrow> outcome" where
  "setAttackPower characterAttackPower (this, g) =
     (case validateAttackPower characterAttackPower of
        Inl e \<Rightarrow> Inl (e, (this, g))
      | Inr _ \<Rightarrow> Inr (this\<lparr>attackPower := characterAttackPower\<rparr>, g))"

text \<open>
  \<open>init\<close>, lines 145-151: the three setters in sequence, then \<open>id = uniqueId++\<close> and
  \<open>++ObjectCount\<close>.
\<close>

fun assignId :: "state \<Rightarrow> state" where
  "assignId (this, g) =
     (this\<lparr>id' := uniqueId g\<rparr>,
      g\<lparr>uniqueId := uniqueId g + 1, ObjectCount := ObjectCount g + 1\<rparr>)"

definition init :: "string \<Rightarrow> cint \<Rightarrow> cint \<Rightarrow> state \<Rightarrow> outcome" where
  "init nm hp ap s =
     (case setName nm s of
        Inl x \<Rightarrow> Inl x
      | Inr s1 \<Rightarrow>
          (case setHealth hp s1 of
             Inl x \<Rightarrow> Inl x
           | Inr s2 \<Rightarrow>
               (case setAttackPower ap s2 of
                  Inl x \<Rightarrow> Inl x
                | Inr s3 \<Rightarrow> Inr (assignId s3))))"

text \<open>
  The two constructors, lines 39-41 and 51-53 (the specification's \<open>createDefault\<close> and
  \<open>createWith\<close>). \<open>mem\<close> is the storage the object is built in: its \<open>int\<close> members hold
  whatever the storage held, and the \<open>string\<close> member is default-constructed, empty. When
  \<open>init\<close> throws, the object never comes to exist (its destructor does not run) and the
  caller sees the exception and the static members.
\<close>

definition construct :: "outcome \<Rightarrow> error \<times> statics + GameCharacter \<times> statics" where
  "construct r = (case r of Inl (e, (this, g)) \<Rightarrow> Inl (e, g) | Inr s \<Rightarrow> Inr s)"

definition createDefault :: "GameCharacter \<Rightarrow> statics \<Rightarrow> error \<times> statics + GameCharacter \<times> statics" where
  "createDefault mem g = construct (init ''Name'' (- 1) 0 (mem\<lparr>name := []\<rparr>, g))"

definition createWith ::
  "string \<Rightarrow> cint \<Rightarrow> cint \<Rightarrow> GameCharacter \<Rightarrow> statics \<Rightarrow> error \<times> statics + GameCharacter \<times> statics" where
  "createWith nm hp ap mem g = construct (init nm hp ap (mem\<lparr>name := []\<rparr>, g))"

text \<open>The destructor, lines 58-60 (the specification's \<open>dispose\<close>): \<open>--ObjectCount\<close>.\<close>

definition dispose :: "GameCharacter \<Rightarrow> statics \<Rightarrow> statics" where
  "dispose this g = g\<lparr>ObjectCount := ObjectCount g - 1\<rparr>"

text \<open>The accessors and \<open>toString\<close>, lines 80-116.\<close>

definition getName :: "GameCharacter \<Rightarrow> string" where "getName this = name this"
definition getHealth :: "GameCharacter \<Rightarrow> cint" where "getHealth this = health this"
definition getAttackPower :: "GameCharacter \<Rightarrow> cint" where "getAttackPower this = attackPower this"
definition getPersonalId :: "GameCharacter \<Rightarrow> cint" where "getPersonalId this = id' this"
definition getObjectCount :: "statics \<Rightarrow> cint" where "getObjectCount g = ObjectCount g"
definition getIdCount :: "statics \<Rightarrow> cint" where "getIdCount g = uniqueId g"

definition toString :: "GameCharacter \<Rightarrow> string" where
  "toString this =
     name this @ '' '' @ to_string (sint (health this)) @ '' '' @ to_string (sint (attackPower this))"

section \<open>Sequences of calls\<close>

text \<open>
  A caller, like \<open>main\<close>, constructs entities one after the other and later deletes them.
  \<open>create_all\<close> runs a list of constructor calls, each with the storage it builds in, and
  returns the entities that came to exist, in creation order; a call that throws adds none.
\<close>

datatype call = Default | With string cint cint

fun create :: "call \<Rightarrow> GameCharacter \<Rightarrow> statics \<Rightarrow> error \<times> statics + GameCharacter \<times> statics" where
  "create Default mem g = createDefault mem g"
| "create (With nm hp ap) mem g = createWith nm hp ap mem g"

fun create_all :: "(call \<times> GameCharacter) list \<Rightarrow> statics \<Rightarrow> GameCharacter list \<times> statics" where
  "create_all [] g = ([], g)"
| "create_all ((c, mem) # cs) g =
     (case create c mem g of
        Inl (e, g') \<Rightarrow> create_all cs g'
      | Inr (this, g') \<Rightarrow> (case create_all cs g' of (objs, g'') \<Rightarrow> (this # objs, g'')))"

fun dispose_all :: "GameCharacter list \<Rightarrow> statics \<Rightarrow> statics" where
  "dispose_all [] g = g"
| "dispose_all (this # objs) g = dispose_all objs (dispose this g)"

section \<open>The specification's validity predicates\<close>

text \<open>
  The name grammar in the specification's words: non-empty, first character \<open>A\<close>-\<open>Z\<close>, at most
  32 characters, only Latin letters and spaces, no two consecutive spaces, no space at the end.
\<close>

definition upper :: "char set" where "upper = set ''ABCDEFGHIJKLMNOPQRSTUVWXYZ''"
definition lower :: "char set" where "lower = set ''abcdefghijklmnopqrstuvwxyz''"

definition spec_name_ok :: "string \<Rightarrow> bool" where
  "spec_name_ok n \<longleftrightarrow>
     n \<noteq> [] \<and> hd n \<in> upper \<and> length n \<le> 32
     \<and> (\<forall>c \<in> set n. c \<in> upper \<or> c \<in> lower \<or> c = CHR '' '')
     \<and> (\<forall>i < length n - 1. \<not> (n ! i = CHR '' '' \<and> n ! (i + 1) = CHR '' ''))
     \<and> last n \<noteq> CHR '' ''"

definition spec_health_ok :: "cint \<Rightarrow> bool" where
  "spec_health_ok h \<longleftrightarrow> sint h = - 1 \<or> (0 < sint h \<and> sint h \<le> 1000)"

definition spec_power_ok :: "cint \<Rightarrow> bool" where
  "spec_power_ok a \<longleftrightarrow> sint a \<le> 500"

definition spec_valid :: "string \<Rightarrow> cint \<Rightarrow> cint \<Rightarrow> bool" where
  "spec_valid n h a \<longleftrightarrow> spec_name_ok n \<and> spec_health_ok h \<and> spec_power_ok a"

text \<open>
  What the specification calls a decimal integer, written without \<open>to_string\<close>:
  \<open>read_decimal\<close> reads a decimal numeral in its one canonical form (an optional minus sign,
  then digits, no leading zero, no minus zero) by Horner's rule, and reads nothing else.
\<close>

definition is_digit :: "char \<Rightarrow> bool" where
  "is_digit c \<longleftrightarrow> c \<in> set ''0123456789''"

definition digit_val :: "char \<Rightarrow> nat" where
  "digit_val c = length (takeWhile (\<lambda>d. d \<noteq> c) ''0123456789'')"

fun horner :: "nat \<Rightarrow> string \<Rightarrow> nat" where
  "horner acc [] = acc"
| "horner acc (c # cs) = horner (10 * acc + digit_val c) cs"

definition read_nat :: "string \<Rightarrow> nat option" where
  "read_nat s =
     (if s \<noteq> [] \<and> list_all is_digit s \<and> (hd s = CHR ''0'' \<longrightarrow> length s = 1)
      then Some (horner 0 s) else None)"

definition read_decimal :: "string \<Rightarrow> int option" where
  "read_decimal s =
     (case s of
        [] \<Rightarrow> None
      | c # cs \<Rightarrow>
          if c = CHR ''-''
          then (case read_nat cs of
                  None \<Rightarrow> None
                | Some n \<Rightarrow> if n = 0 then None else Some (- int n))
          else map_option int (read_nat s))"

text \<open>
  What is left of the name grammar from position \<open>i\<close> on, when the previous character was a
  space exactly if \<open>sp\<close> holds: the invariant of the loop of \<open>validateName\<close>.
\<close>

definition letter_or_space :: "char \<Rightarrow> bool" where
  "letter_or_space c \<longleftrightarrow> c \<in> upper \<or> c \<in> lower \<or> c = CHR '' ''"

definition tail_ok :: "string \<Rightarrow> nat \<Rightarrow> bool \<Rightarrow> bool" where
  "tail_ok s i sp \<longleftrightarrow>
     (\<forall>j. i \<le> j \<longrightarrow> j < length s \<longrightarrow> letter_or_space (s ! j))
     \<and> (\<forall>j. i \<le> j \<longrightarrow> j + 1 < length s \<longrightarrow> \<not> (s ! j = CHR '' '' \<and> s ! (j + 1) = CHR '' ''))
     \<and> (sp \<longrightarrow> i < length s \<longrightarrow> s ! i \<noteq> CHR '' '')
     \<and> (i < length s \<longrightarrow> s ! (length s - 1) \<noteq> CHR '' '')"

text \<open>A storage filled with zero bytes, for the concrete runs below.\<close>

definition zeroed :: GameCharacter where
  "zeroed = \<lparr>name = [], health = 0, attackPower = 0, id' = 0\<rparr>"

section \<open>Facts about characters\<close>

lemma char_int_between:
  "0 \<le> lo \<Longrightarrow> hi < 128 \<Longrightarrow>
   (lo \<le> char_int sg c \<and> char_int sg c \<le> hi) \<longleftrightarrow> (lo \<le> int (of_char c) \<and> int (of_char c) \<le> hi)"
proof -
  assume b: "0 \<le> lo" "hi < 128"
  have "(of_char c :: nat) < 256" by simp
  then have n: "int (of_char c) < 256" by linarith
  have g: "\<And>n::int. n < 256 \<Longrightarrow>
      (lo \<le> (if sg \<and> 128 \<le> n then n - 256 else n) \<and> (if sg \<and> 128 \<le> n then n - 256 else n) \<le> hi)
      \<longleftrightarrow> (lo \<le> n \<and> n \<le> hi)"
    using b by auto
  have e: "128 \<le> (of_char c :: nat) \<longleftrightarrow> 128 \<le> int (of_char c)" by linarith
  show ?thesis unfolding char_int_def e by (rule g[OF n])
qed

lemma nat_range_cases:
  "lo \<le> (n::nat) \<Longrightarrow> n \<le> lo + 25 \<Longrightarrow> n \<in> set (map ((+) lo) [0..<26])"
  by (auto simp: image_iff intro: bexI[of _ "n - lo"])

lemma upper_enum: "char_of ` set (map ((+) 65) [0..<(26::nat)]) = upper"
  by code_simp

lemma lower_enum: "char_of ` set (map ((+) 97) [0..<(26::nat)]) = lower"
  by code_simp

lemma upper_iff: "c \<in> upper \<longleftrightarrow> 65 \<le> (of_char c :: nat) \<and> (of_char c :: nat) \<le> 90"
proof
  assume "c \<in> upper"
  then show "65 \<le> (of_char c :: nat) \<and> (of_char c :: nat) \<le> 90"
    by (auto simp: upper_def)
next
  assume r: "65 \<le> (of_char c :: nat) \<and> (of_char c :: nat) \<le> 90"
  then have "(of_char c :: nat) \<in> set (map ((+) 65) [0..<26])"
    by (intro nat_range_cases) auto
  then have "char_of (of_char c :: nat) \<in> char_of ` set (map ((+) 65) [0..<(26::nat)])"
    by (rule imageI)
  then show "c \<in> upper"
    unfolding upper_enum[symmetric] by simp
qed

lemma lower_iff: "c \<in> lower \<longleftrightarrow> 97 \<le> (of_char c :: nat) \<and> (of_char c :: nat) \<le> 122"
proof
  assume "c \<in> lower"
  then show "97 \<le> (of_char c :: nat) \<and> (of_char c :: nat) \<le> 122"
    by (auto simp: lower_def)
next
  assume r: "97 \<le> (of_char c :: nat) \<and> (of_char c :: nat) \<le> 122"
  then have "(of_char c :: nat) \<in> set (map ((+) 97) [0..<26])"
    by (intro nat_range_cases) auto
  then have "char_of (of_char c :: nat) \<in> char_of ` set (map ((+) 97) [0..<(26::nat)])"
    by (rule imageI)
  then show "c \<in> lower"
    unfolding lower_enum[symmetric] by simp
qed

lemma outside_upper: "outside sg CHR ''A'' CHR ''Z'' c \<longleftrightarrow> c \<notin> upper"
proof -
  have A: "char_int sg CHR ''A'' = 65" and Z: "char_int sg CHR ''Z'' = 90"
    by (simp_all add: char_int_def)
  have "outside sg CHR ''A'' CHR ''Z'' c \<longleftrightarrow> \<not> (65 \<le> char_int sg c \<and> char_int sg c \<le> 90)"
    by (auto simp: outside_def A Z)
  also have "\<dots> \<longleftrightarrow> \<not> (65 \<le> int (of_char c) \<and> int (of_char c) \<le> 90)"
    using char_int_between[of 65 90 sg c] by simp
  also have "\<dots> \<longleftrightarrow> c \<notin> upper"
    by (simp add: upper_iff)
  finally show ?thesis .
qed

lemma outside_lower: "outside sg CHR ''a'' CHR ''z'' c \<longleftrightarrow> c \<notin> lower"
proof -
  have A: "char_int sg CHR ''a'' = 97" and Z: "char_int sg CHR ''z'' = 122"
    by (simp_all add: char_int_def)
  have "outside sg CHR ''a'' CHR ''z'' c \<longleftrightarrow> \<not> (97 \<le> char_int sg c \<and> char_int sg c \<le> 122)"
    by (auto simp: outside_def A Z)
  also have "\<dots> \<longleftrightarrow> \<not> (97 \<le> int (of_char c) \<and> int (of_char c) \<le> 122)"
    using char_int_between[of 97 122 sg c] by simp
  also have "\<dots> \<longleftrightarrow> c \<notin> lower"
    by (simp add: lower_iff)
  finally show ?thesis .
qed

lemma space_not_letter: "CHR '' '' \<notin> upper" "CHR '' '' \<notin> lower"
  by (simp_all add: upper_iff lower_iff)

lemma nul_not_letter: "CHR 0x00 \<notin> upper" "CHR 0x00 \<notin> lower"
  by (simp_all add: upper_iff lower_iff)

section \<open>The loop of \<open>validateName\<close>\<close>

lemma loop_end: "\<not> i < length s \<Longrightarrow> validateName_loop s i sp = Inr ()"
  by (subst validateName_loop.simps) simp

lemma loop_trailing:
  "i < length s \<Longrightarrow> s ! i = CHR '' '' \<Longrightarrow> at s (i + 1) = CHR 0x00 \<Longrightarrow>
   validateName_loop s i sp = Inl NameTrailingSpace"
  by (subst validateName_loop.simps) (simp add: at_def)

lemma loop_letter:
  "i < length s \<Longrightarrow> s ! i \<in> upper \<or> s ! i \<in> lower \<Longrightarrow>
   validateName_loop s i sp = validateName_loop s (i + 1) False"
  by (subst validateName_loop.simps)
     (auto simp: at_def outside_upper outside_lower space_not_letter)

lemma loop_space:
  "i < length s \<Longrightarrow> s ! i = CHR '' '' \<Longrightarrow> at s (i + 1) \<noteq> CHR 0x00 \<Longrightarrow> \<not> sp \<Longrightarrow>
   validateName_loop s i sp = validateName_loop s (i + 1) True"
  by (subst validateName_loop.simps)
     (auto simp: at_def outside_upper outside_lower space_not_letter)

lemma loop_double:
  "i < length s \<Longrightarrow> s ! i \<notin> upper \<Longrightarrow> s ! i \<notin> lower \<Longrightarrow>
   \<not> (s ! i = CHR '' '' \<and> at s (i + 1) = CHR 0x00) \<Longrightarrow> sp \<Longrightarrow>
   validateName_loop s i sp = Inl NameDoubleSpace"
  by (subst validateName_loop.simps)
     (auto simp: at_def outside_upper outside_lower)

lemma loop_invalid:
  "i < length s \<Longrightarrow> s ! i \<notin> upper \<Longrightarrow> s ! i \<notin> lower \<Longrightarrow> s ! i \<noteq> CHR '' '' \<Longrightarrow> \<not> sp \<Longrightarrow>
   validateName_loop s i sp = Inl NameInvalidCharacter"
  by (subst validateName_loop.simps)
     (auto simp: at_def outside_upper outside_lower)

lemma all_from: "(\<forall>j. i \<le> j \<longrightarrow> R j) \<longleftrightarrow> R i \<and> (\<forall>j. Suc i \<le> j \<longrightarrow> R j)"
  by (metis Suc_le_eq le_less order_refl less_imp_le)

lemma tail_ok_step:
  "i < length s \<Longrightarrow>
   tail_ok s i sp \<longleftrightarrow>
     letter_or_space (s ! i)
     \<and> (i + 1 < length s \<longrightarrow> \<not> (s ! i = CHR '' '' \<and> s ! (i + 1) = CHR '' ''))
     \<and> (sp \<longrightarrow> s ! i \<noteq> CHR '' '')
     \<and> (i + 1 = length s \<longrightarrow> s ! i \<noteq> CHR '' '')
     \<and> tail_ok s (i + 1) False"
proof (cases "i + 1 = length s")
  case True
  then have e: "length s - 1 = i" by simp
  assume "i < length s"
  then show ?thesis
    unfolding tail_ok_def e
    apply (subst all_from[of i])
    apply (subst all_from[of i])
    using True apply auto
    done
next
  case False
  assume "i < length s"
  then show ?thesis
    unfolding tail_ok_def
    apply (subst all_from[of i])
    apply (subst all_from[of i])
    using False apply auto
    done
qed

lemma tail_ok_end: "length s \<le> i \<Longrightarrow> tail_ok s i sp"
  by (auto simp: tail_ok_def)

lemma tail_ok_True:
  "i < length s \<Longrightarrow> tail_ok s i True \<longleftrightarrow> s ! i \<noteq> CHR '' '' \<and> tail_ok s i False"
  by (auto simp: tail_ok_def)

lemma loop_accepts: "validateName_loop s i sp = Inr () \<longleftrightarrow> tail_ok s i sp"
proof (induction "length s - i" arbitrary: i sp)
  case 0
  then show ?case by (simp add: loop_end tail_ok_end)
next
  case (Suc n)
  then have len: "i < length s" and n: "n = length s - (i + 1)" by simp_all
  note ih = Suc.hyps(1)[OF n]
  let ?c = "s ! i"
  consider (trail) "?c = CHR '' ''" "at s (i + 1) = CHR 0x00"
    | (letter) "?c \<in> upper \<or> ?c \<in> lower"
    | (space) "?c = CHR '' ''" "at s (i + 1) \<noteq> CHR 0x00" "\<not> sp"
    | (double) "?c \<notin> upper" "?c \<notin> lower" "\<not> (?c = CHR '' '' \<and> at s (i + 1) = CHR 0x00)" "sp"
    | (invalid) "?c \<notin> upper" "?c \<notin> lower" "?c \<noteq> CHR '' ''" "\<not> sp"
    by blast
  then show ?case
  proof cases
    case trail
    have "\<not> tail_ok s i sp"
    proof (cases "i + 1 < length s")
      case True
      with trail have "s ! (i + 1) = CHR 0x00" by (simp add: at_def)
      then have "\<not> letter_or_space (s ! (i + 1))"
        by (simp add: letter_or_space_def nul_not_letter)
      then have "\<not> tail_ok s (i + 1) False"
        using True by (auto simp: tail_ok_def)
      then show ?thesis using len by (simp add: tail_ok_step)
    next
      case False
      with len have "i + 1 = length s" by simp
      then show ?thesis using len trail by (simp add: tail_ok_step)
    qed
    then show ?thesis using loop_trailing[OF len trail] by simp
  next
    case letter
    then have "?c \<noteq> CHR '' ''" using space_not_letter by auto
    then show ?thesis
      using loop_letter[OF len letter, of sp] ih[of False] letter len
      by (simp add: tail_ok_step letter_or_space_def)
  next
    case space
    then have n1: "i + 1 < length s" by (auto simp: at_def split: if_splits)
    show ?thesis
      using loop_space[OF len space] ih[of True] len space n1
      by (auto simp: tail_ok_step[of i] tail_ok_True letter_or_space_def)
  next
    case double
    have "\<not> tail_ok s i sp"
      using len double by (auto simp: tail_ok_step letter_or_space_def)
    then show ?thesis using loop_double[OF len double] by simp
  next
    case invalid
    have "\<not> tail_ok s i sp"
      using len invalid by (auto simp: tail_ok_step letter_or_space_def)
    then show ?thesis using loop_invalid[OF len invalid] by simp
  qed
qed


lemma validateName_iff: "validateName n = Inr () \<longleftrightarrow> spec_name_ok n"
proof (cases "n = []")
  case True
  then show ?thesis by (simp add: validateName_def spec_name_ok_def)
next
  case False
  then have hd: "at n 0 = hd n" "0 < length n" by (simp_all add: at_def hd_conv_nth)
  have t: "tail_ok n 0 False \<longleftrightarrow>
      (\<forall>c \<in> set n. c \<in> upper \<or> c \<in> lower \<or> c = CHR '' '')
      \<and> (\<forall>i < length n - 1. \<not> (n ! i = CHR '' '' \<and> n ! (i + 1) = CHR '' ''))
      \<and> last n \<noteq> CHR '' ''"
    using False
    by (simp add: tail_ok_def letter_or_space_def all_set_conv_all_nth last_conv_nth less_diff_conv)
  show ?thesis
    using False
    by (auto simp: validateName_def spec_name_ok_def MAX_NAME_def hd outside_upper loop_accepts t)
qed

section \<open>Which error a rejected name gets\<close>





text \<open>
  C4. Every rejected name is reported with the rule it breaks first; in particular a
  character that is neither a letter nor a space is reported as \<open>NameInvalidCharacter\<close>. The
  code does not do that for such a character right after a space: the branch that throws
  the double-space message tests the flag alone, not that the current character is a space.
  The name \<open>A !\<close> has no two consecutive spaces and is reported as \<open>NameDoubleSpace\<close>, while
  \<open>A!\<close> is reported as \<open>NameInvalidCharacter\<close> and \<open>A  b\<close> as \<open>NameDoubleSpace\<close>.
\<close>

theorem nonletter_after_space_reported_as_double_space:
  "validateName ''A !'' = Inl NameDoubleSpace
   \<and> map_sum what id (validateName ''A !'')
       = Inl ''Invalid character name. It should not contain spaces following another space.''
   \<and> validateName ''A!'' = Inl NameInvalidCharacter
   \<and> map_sum what id (validateName ''A!'')
       = Inl ''Name must contain only alphabetic characters and spaces.''
   \<and> validateName ''A  b'' = Inl NameDoubleSpace"
  by (simp add: validateName_def validateName_loop.simps at_def outside_def char_int_def
      MAX_NAME_def)




section \<open>Health and attack power\<close>

lemma sint_minus1_iff: "(h :: cint) = - 1 \<longleftrightarrow> sint h = - 1"
  by (metis sint_n1 signed_word_eqI)

lemma validateHealth_iff: "validateHealth h = Inr () \<longleftrightarrow> spec_health_ok h"
  by (auto simp: validateHealth_def spec_health_ok_def MAX_HEALTH_def word_sle_eq word_sless_alt
      sint_minus1_iff)

lemma validateAttackPower_iff: "validateAttackPower a = Inr () \<longleftrightarrow> spec_power_ok a"
  by (auto simp: validateAttackPower_def spec_power_ok_def MAX_POWER_def word_sless_alt)

text \<open>
  C7. For every \<open>int\<close> \<open>h\<close>, \<open>validateHealth\<close> accepts \<open>h\<close> if and only if \<open>h = -1\<close> or
  \<open>0 < h \<le> 1000\<close>: zero, every negative value other than \<open>-1\<close> and every value above 1000
  are rejected.
\<close>

theorem validateHealth_accepts:
  "validateHealth h = Inr () \<longleftrightarrow> sint h = - 1 \<or> (0 < sint h \<and> sint h \<le> 1000)"
  by (auto simp: validateHealth_def MAX_HEALTH_def word_sle_eq word_sless_alt sint_minus1_iff)

theorem validateHealth_accepts_witness:
  "validateHealth 1000 = Inr () \<and> validateHealth (- 1) = Inr () \<and> validateHealth 1 = Inr ()
   \<and> validateHealth 0 \<noteq> Inr () \<and> validateHealth (- 2) \<noteq> Inr () \<and> validateHealth 1001 \<noteq> Inr ()"
  using validateHealth_accepts [of 1000] validateHealth_accepts [of "- 1"]
    validateHealth_accepts [of 1] validateHealth_accepts [of 0]
    validateHealth_accepts [of "- 2"] validateHealth_accepts [of 1001]
  by simp

text \<open>
  C8. For every \<open>int\<close> \<open>a\<close>, \<open>validateAttackPower\<close> accepts \<open>a\<close> if and only if \<open>a \<le> 500\<close>;
  there is no lower bound, so every negative attack power is accepted.
\<close>

theorem validateAttackPower_accepts:
  "(validateAttackPower a = Inr () \<longleftrightarrow> sint a \<le> 500)
   \<and> (sint a < 0 \<longrightarrow> validateAttackPower a = Inr ())"
  by (auto simp: validateAttackPower_def MAX_POWER_def word_sless_alt)

theorem validateAttackPower_accepts_witness:
  "validateAttackPower 500 = Inr () \<and> validateAttackPower 501 \<noteq> Inr ()
   \<and> sint (- 2147483648 :: cint) < 0 \<and> validateAttackPower (- 2147483648) = Inr ()"
  using validateAttackPower_accepts [of 500] validateAttackPower_accepts [of 501]
    validateAttackPower_accepts [of "- 2147483648"]
  by simp

section \<open>Decimal rendering\<close>

lemma digit_table:
  "\<forall>d \<in> set [0..<10]. is_digit (digit d) \<and> digit_val (digit d) = d
     \<and> (digit d = CHR ''0'' \<longleftrightarrow> d = 0) \<and> digit d \<noteq> CHR ''-''"
  by code_simp

lemma digit_facts:
  assumes "d < 10"
  shows "is_digit (digit d)" and "digit_val (digit d) = d"
    and "digit d = CHR ''0'' \<longleftrightarrow> d = 0" and "digit d \<noteq> CHR ''-''"
proof -
  from assms have "d \<in> set [0..<10]" by simp
  with digit_table have
    "is_digit (digit d) \<and> digit_val (digit d) = d
     \<and> (digit d = CHR ''0'' \<longleftrightarrow> d = 0) \<and> digit d \<noteq> CHR ''-''"
    by (rule bspec)
  then show "is_digit (digit d)" and "digit_val (digit d) = d"
    and "digit d = CHR ''0'' \<longleftrightarrow> d = 0" and "digit d \<noteq> CHR ''-''"
    by blast+
qed

lemma horner_snoc: "horner acc (xs @ [c]) = 10 * horner acc xs + digit_val c"
  by (induction xs arbitrary: acc) simp_all

lemma digits_nonempty: "digits n \<noteq> []"
  by (subst digits.simps) simp

lemma digits_all: "list_all is_digit (digits n)"
proof (induction n rule: digits.induct)
  case (1 n)
  then show ?case
    by (subst digits.simps) (simp add: digit_facts)
qed

lemma digits_value: "horner 0 (digits n) = n"
proof (induction n rule: digits.induct)
  case (1 n)
  show ?case
  proof (cases "n < 10")
    case True
    then show ?thesis by (subst digits.simps) (simp add: digit_facts)
  next
    case False
    with 1 have "horner 0 (digits (n div 10)) = n div 10" by simp
    with False show ?thesis
      by (subst digits.simps) (simp add: horner_snoc digit_facts)
  qed
qed

lemma digits_hd: "hd (digits n) = CHR ''0'' \<longleftrightarrow> n = 0"
proof (induction n rule: digits.induct)
  case (1 n)
  show ?case
  proof (cases "n < 10")
    case True
    then show ?thesis by (subst digits.simps) (simp add: digit_facts)
  next
    case False
    then have "n div 10 \<noteq> 0" by simp
    with 1 False have "hd (digits (n div 10)) \<noteq> CHR ''0''" by simp
    with False show ?thesis
      by (subst digits.simps) (simp add: digits_nonempty)
  qed
qed

lemma digits_zero: "digits 0 = ''0''"
  by code_simp

lemma digits_no_minus: "hd (digits n) \<noteq> CHR ''-''"
proof -
  have "is_digit (hd (digits n))"
    using digits_all[of n] digits_nonempty[of n] by (cases "digits n") simp_all
  then show ?thesis by (auto simp: is_digit_def)
qed

lemma read_nat_digits: "read_nat (digits n) = Some n"
proof -
  have "hd (digits n) = CHR ''0'' \<longrightarrow> length (digits n) = 1"
    by (auto simp: digits_hd digits_zero)
  then show ?thesis
    by (simp add: read_nat_def digits_nonempty digits_all digits_value)
qed

lemma read_decimal_to_string: "read_decimal (to_string i) = Some i"
proof (cases "i < 0")
  case True
  then show ?thesis
    by (simp add: read_decimal_def to_string_def read_nat_digits)
next
  case False
  obtain c cs where d: "digits (nat i) = c # cs"
    using digits_nonempty[of "nat i"] by (cases "digits (nat i)") auto
  then have "c \<noteq> CHR ''-''" using digits_no_minus[of "nat i"] by simp
  with False d show ?thesis
    using read_nat_digits[of "nat i"] by (simp add: read_decimal_def to_string_def)
qed

lemma char_table:
  "\<forall>c \<in> set ''0123456789''. digit (digit_val c) = c \<and> digit_val c < 10
     \<and> (c \<noteq> CHR ''0'' \<longrightarrow> 0 < digit_val c)"
  by code_simp

lemma is_digit_facts:
  assumes "is_digit c"
  shows "digit (digit_val c) = c" and "digit_val c < 10"
    and "c \<noteq> CHR ''0'' \<Longrightarrow> 0 < digit_val c"
proof -
  from assms have "c \<in> set ''0123456789''" by (simp only: is_digit_def)
  with char_table have
    f: "digit (digit_val c) = c \<and> digit_val c < 10 \<and> (c \<noteq> CHR ''0'' \<longrightarrow> 0 < digit_val c)"
    by (rule bspec)
  from f show "digit (digit_val c) = c" by blast
  from f show "digit_val c < 10" by blast
  from f show "c \<noteq> CHR ''0'' \<Longrightarrow> 0 < digit_val c" by blast
qed

lemma horner_ge: "acc \<le> horner acc xs"
proof (induction xs arbitrary: acc)
  case Nil
  show ?case by simp
next
  case (Cons c cs)
  have "acc \<le> 10 * acc + digit_val c" by simp
  also have "\<dots> \<le> horner (10 * acc + digit_val c) cs" by (rule Cons.IH)
  finally show ?case by simp
qed

lemma horner_pos:
  assumes "xs \<noteq> []" "list_all is_digit xs" "hd xs \<noteq> CHR ''0''"
  shows "0 < horner 0 xs"
proof -
  obtain c cs where x: "xs = c # cs" using assms(1) by (cases xs) auto
  with assms have "0 < digit_val c" by (simp add: is_digit_facts)
  also have "digit_val c \<le> horner (digit_val c) cs" by (rule horner_ge)
  finally show ?thesis using x by simp
qed

lemma read_nat_unique: "read_nat s = Some n \<Longrightarrow> s = digits n"
proof (induction s arbitrary: n rule: rev_induct)
  case Nil
  then show ?case by (simp add: read_nat_def)
next
  case (snoc c xs)
  from snoc.prems have all: "list_all is_digit xs" "is_digit c"
    and n: "n = 10 * horner 0 xs + digit_val c"
    and z: "hd (xs @ [c]) = CHR ''0'' \<longrightarrow> length (xs @ [c]) = 1"
    by (auto simp: read_nat_def horner_snoc split: if_splits)
  note c = is_digit_facts[OF all(2)]
  show ?case
  proof (cases "xs = []")
    case True
    with n c show ?thesis by (subst digits.simps) simp
  next
    case False
    with z have h: "hd xs \<noteq> CHR ''0''" by auto
    with False all(1) have "read_nat xs = Some (horner 0 xs)" by (simp add: read_nat_def)
    then have x: "xs = digits (horner 0 xs)" by (rule snoc.IH)
    have p: "0 < horner 0 xs" by (rule horner_pos[OF False all(1) h])
    with n have big: "\<not> n < 10" by simp
    from n c(2) have dm: "n div 10 = horner 0 xs" "n mod 10 = digit_val c" by simp_all
    have "digits n = digits (n div 10) @ [digit (n mod 10)]"
      using big by (subst digits.simps) simp
    also have "\<dots> = xs @ [c]" using x c(1) by (simp add: dm)
    finally show ?thesis by simp
  qed
qed

lemma read_decimal_unique: "read_decimal s = Some i \<Longrightarrow> s = to_string i"
proof (cases s)
  case Nil
  assume "read_decimal s = Some i"
  with Nil show ?thesis by (simp add: read_decimal_def)
next
  case (Cons c cs)
  assume r: "read_decimal s = Some i"
  show ?thesis
  proof (cases "c = CHR ''-''")
    case True
    with r Cons obtain n where n: "read_nat cs = Some n" "n \<noteq> 0" "i = - int n"
      by (auto simp: read_decimal_def split: option.splits if_splits)
    from n(1) have "cs = digits n" by (rule read_nat_unique)
    with n Cons True show ?thesis by (simp add: to_string_def)
  next
    case False
    with r Cons obtain n where n: "read_nat s = Some n" "i = int n"
      by (auto simp: read_decimal_def)
    from n(1) have "s = digits n" by (rule read_nat_unique)
    with n show ?thesis by (simp add: to_string_def)
  qed
qed

section \<open>Construction and renaming\<close>

lemma sum_unit_cases: "(r :: error + unit) = Inr () \<or> (\<exists>e. r = Inl e)"
  by (cases r) auto

lemma validateName_rejects: "\<not> spec_name_ok n \<Longrightarrow> \<exists>e. validateName n = Inl e"
  using validateName_iff[of n] sum_unit_cases[of "validateName n"] by auto

lemma validateHealth_rejects: "\<not> spec_health_ok h \<Longrightarrow> \<exists>e. validateHealth h = Inl e"
  using validateHealth_iff[of h] sum_unit_cases[of "validateHealth h"] by auto

lemma validateAttackPower_rejects:
  "\<not> spec_power_ok a \<Longrightarrow> validateAttackPower a = Inl AttackPowerTooHigh"
  using validateAttackPower_iff[of a] by (auto simp: validateAttackPower_def split: if_splits)

lemma init_name_fails:
  "validateName n = Inl e \<Longrightarrow> init n h a (this, g) = Inl (e, (this, g))"
  by (simp add: init_def)

lemma init_health_fails:
  "validateName n = Inr () \<Longrightarrow> validateHealth h = Inl e \<Longrightarrow>
   init n h a (this, g) = Inl (e, (this\<lparr>name := n\<rparr>, g))"
  by (simp add: init_def)

lemma init_power_fails:
  "validateName n = Inr () \<Longrightarrow> validateHealth h = Inr () \<Longrightarrow> validateAttackPower a = Inl e \<Longrightarrow>
   init n h a (this, g) = Inl (e, (this\<lparr>name := n, health := h\<rparr>, g))"
  by (simp add: init_def)

lemma init_succeeds:
  "validateName n = Inr () \<Longrightarrow> validateHealth h = Inr () \<Longrightarrow> validateAttackPower a = Inr () \<Longrightarrow>
   init n h a (this, g) =
     Inr (this\<lparr>name := n, health := h, attackPower := a, id' := uniqueId g\<rparr>,
          g\<lparr>uniqueId := uniqueId g + 1, ObjectCount := ObjectCount g + 1\<rparr>)"
  by (simp add: init_def)

lemma createWith_succeeds:
  "spec_valid n h a \<Longrightarrow>
   createWith n h a mem g =
     Inr (\<lparr>name = n, health = h, attackPower = a, id' = uniqueId g\<rparr>,
          g\<lparr>uniqueId := uniqueId g + 1, ObjectCount := ObjectCount g + 1\<rparr>)"
  by (simp add: createWith_def construct_def spec_valid_def init_succeeds
      validateName_iff validateHealth_iff validateAttackPower_iff)

lemma createWith_fails:
  assumes "\<not> spec_valid n h a"
  shows "\<exists>e. createWith n h a mem g = Inl (e, g)"
proof -
  consider (n) "\<not> spec_name_ok n"
    | (h) "spec_name_ok n" "\<not> spec_health_ok h"
    | (a) "spec_name_ok n" "spec_health_ok h" "\<not> spec_power_ok a"
    using assms by (auto simp: spec_valid_def)
  then show ?thesis
  proof cases
    case n
    then obtain e where "validateName n = Inl e" using validateName_rejects by blast
    then show ?thesis by (simp add: createWith_def construct_def init_name_fails)
  next
    case h
    then obtain e where "validateHealth h = Inl e" using validateHealth_rejects by blast
    then show ?thesis using h(1)
      by (simp add: createWith_def construct_def init_health_fails validateName_iff)
  next
    case a
    then show ?thesis
      by (simp add: createWith_def construct_def init_power_fails validateName_iff
          validateHealth_iff validateAttackPower_rejects)
  qed
qed

lemma default_valid: "spec_valid ''Name'' (- 1) 0"
  by (simp add: spec_valid_def spec_health_ok_def spec_power_ok_def) code_simp

lemma createDefault_eq: "createDefault mem g = createWith ''Name'' (- 1) 0 mem g"
  by (simp add: createDefault_def createWith_def)

lemma setName_iff: "(\<exists>s'. setName n (this, g) = Inr s') \<longleftrightarrow> spec_name_ok n"
  using validateName_iff[of n] sum_unit_cases[of "validateName n"] by auto

lemma createWith_iff: "(\<exists>r. createWith n h a mem g = Inr r) \<longleftrightarrow> spec_valid n h a"
proof (cases "spec_valid n h a")
  case True
  then show ?thesis by (simp add: createWith_succeeds)
next
  case False
  then obtain e where "createWith n h a mem g = Inl (e, g)"
    using createWith_fails by blast
  with False show ?thesis by simp
qed

text \<open>
  C1. \<open>validateName\<close>, which \<open>setName\<close> and so the constructors run, accepts a name if and
  only if it is non-empty, starts with \<open>A\<close>-\<open>Z\<close>, has at most 32 characters, consists of
  Latin letters and spaces, has no two consecutive spaces and does not end with a space.
  \<open>setName\<close> accepts exactly these names, and so does construction (with a valid health and
  attack power).
\<close>

theorem name_grammar:
  "(validateName n = Inr () \<longleftrightarrow> spec_name_ok n)
   \<and> ((\<exists>s'. setName n (this, g) = Inr s') \<longleftrightarrow> spec_name_ok n)
   \<and> ((\<exists>r. createWith n h a mem g' = Inr r) \<longleftrightarrow> spec_name_ok n \<and> spec_health_ok h \<and> spec_power_ok a)"
  using validateName_iff[of n] setName_iff[of n this g] createWith_iff[of n h a mem g']
  by (simp add: spec_valid_def)

theorem name_grammar_witness:
  "spec_name_ok ''Leonardo da Vinci'' \<and> validateName ''Leonardo da Vinci'' = Inr ()
   \<and> (\<exists>s'. setName ''Leonardo da Vinci'' (zeroed, statics0) = Inr s')
   \<and> (\<exists>r. createWith ''Leonardo da Vinci'' 1000 20 zeroed statics0 = Inr r)
   \<and> \<not> spec_name_ok ''Leonardo  da Vinci'' \<and> validateName ''Leonardo  da Vinci'' \<noteq> Inr ()
   \<and> \<not> spec_name_ok ''Leonardo '' \<and> validateName ''Leonardo '' \<noteq> Inr ()
   \<and> \<not> spec_name_ok ''leonardo'' \<and> validateName ''leonardo'' \<noteq> Inr ()"
proof -
  have a: "spec_name_ok ''Leonardo da Vinci''" by code_simp
  have b: "\<not> spec_name_ok ''Leonardo  da Vinci''" by code_simp
  have c: "\<not> spec_name_ok ''Leonardo ''" by code_simp
  have d: "\<not> spec_name_ok ''leonardo''" by code_simp
  have e: "spec_health_ok 1000" "spec_power_ok 20"
    by (simp_all add: spec_health_ok_def spec_power_ok_def)
  show ?thesis
    using a b c d e
      name_grammar [of "''Leonardo da Vinci''" zeroed statics0 1000 20 zeroed statics0]
      name_grammar [of "''Leonardo  da Vinci''" zeroed statics0 1000 20 zeroed statics0]
      name_grammar [of "''Leonardo ''" zeroed statics0 1000 20 zeroed statics0]
      name_grammar [of "''leonardo''" zeroed statics0 1000 20 zeroed statics0]
    by blast
qed

text \<open>
  C2, as stated: when the health or the attack power is invalid, no field has been committed
  at the point where construction fails. It fails for the name \<open>A\<close> with health 0: \<open>init\<close>
  throws from \<open>setHealth\<close> when \<open>setName\<close> has already stored the name.
\<close>

theorem init_commits_name_counterexample:
  "\<not> spec_health_ok 0
   \<and> init ''A'' 0 0 (zeroed\<lparr>name := []\<rparr>, statics0) = Inl (HealthNotPositive, (zeroed\<lparr>name := ''A''\<rparr>, statics0))
   \<and> name (zeroed\<lparr>name := ''A''\<rparr>) \<noteq> name (zeroed\<lparr>name := []\<rparr>)"
  by (simp add: spec_health_ok_def zeroed_def init_def validateName_def validateName_loop.simps
      validateHealth_def at_def outside_def char_int_def MAX_NAME_def word_sle_eq)

text \<open>
  C2, amended. \<open>init\<close> validates the fields in the order name, health, attack power, and
  stores each one as soon as it has passed: an invalid name fails with nothing stored, an
  invalid health fails with the name stored, an invalid attack power fails with the name
  and the health stored. In each case the identity is not assigned and the static counters
  are as before.
\<close>

theorem init_commits_in_turn:
  "(\<not> spec_name_ok n \<longrightarrow>
      (\<exists>e. validateName n = Inl e \<and> init n h a (this, g) = Inl (e, (this, g))))
   \<and> (spec_name_ok n \<and> \<not> spec_health_ok h \<longrightarrow>
      (\<exists>e. validateHealth h = Inl e \<and> init n h a (this, g) = Inl (e, (this\<lparr>name := n\<rparr>, g))))
   \<and> (spec_name_ok n \<and> spec_health_ok h \<and> \<not> spec_power_ok a \<longrightarrow>
      validateAttackPower a = Inl AttackPowerTooHigh
      \<and> init n h a (this, g) = Inl (AttackPowerTooHigh, (this\<lparr>name := n, health := h\<rparr>, g)))"
proof (intro conjI impI)
  assume "\<not> spec_name_ok n"
  then obtain e where "validateName n = Inl e" using validateName_rejects by blast
  then show "\<exists>e. validateName n = Inl e \<and> init n h a (this, g) = Inl (e, (this, g))"
    by (simp add: init_name_fails)
next
  assume v: "spec_name_ok n \<and> \<not> spec_health_ok h"
  then obtain e where "validateHealth h = Inl e" using validateHealth_rejects by blast
  then show "\<exists>e. validateHealth h = Inl e \<and> init n h a (this, g) = Inl (e, (this\<lparr>name := n\<rparr>, g))"
    using v by (simp add: init_health_fails validateName_iff)
next
  assume v: "spec_name_ok n \<and> spec_health_ok h \<and> \<not> spec_power_ok a"
  then show "validateAttackPower a = Inl AttackPowerTooHigh" 
    by (simp add: validateAttackPower_rejects)
  from v show "init n h a (this, g) = Inl (AttackPowerTooHigh, (this\<lparr>name := n, health := h\<rparr>, g))"
    by (simp add: init_power_fails validateName_iff validateHealth_iff validateAttackPower_rejects)
qed

theorem init_commits_in_turn_witness:
  "\<not> spec_name_ok ''bob''
   \<and> (\<exists>e. validateName ''bob'' = Inl e
         \<and> init ''bob'' 10 10 (zeroed, statics0) = Inl (e, (zeroed, statics0)))
   \<and> spec_name_ok ''Jack'' \<and> \<not> spec_health_ok 0
   \<and> (\<exists>e. validateHealth 0 = Inl e
         \<and> init ''Jack'' 0 30 (zeroed, statics0) = Inl (e, (zeroed\<lparr>name := ''Jack''\<rparr>, statics0)))
   \<and> spec_health_ok 10 \<and> \<not> spec_power_ok 501
   \<and> init ''Jack'' 10 501 (zeroed, statics0)
       = Inl (AttackPowerTooHigh, (zeroed\<lparr>name := ''Jack'', health := 10\<rparr>, statics0))"
proof -
  have a: "\<not> spec_name_ok ''bob''" by code_simp
  have b: "spec_name_ok ''Jack''" by code_simp
  have c: "\<not> spec_health_ok 0" "spec_health_ok 10" "\<not> spec_power_ok 501"
    by (simp_all add: spec_health_ok_def spec_power_ok_def)
  show ?thesis
    using a b c
      init_commits_in_turn [of "''bob''" 10 10 zeroed statics0]
      init_commits_in_turn [of "''Jack''" 0 30 zeroed statics0]
      init_commits_in_turn [of "''Jack''" 10 501 zeroed statics0]
    by blast
qed

lemma create_all_skip:
  assumes "\<not> spec_valid n h a"
  shows "create_all ((With n h a, mem) # cs) g = create_all cs g"
proof -
  obtain e where "createWith n h a mem g = Inl (e, g)"
    using createWith_fails[OF assms] by blast
  then show ?thesis by simp
qed

text \<open>
  C3. An invalid triple makes \<open>createWith\<close> fail with the static members, and so both
  counters, as they were, and no entity comes to exist; an invalid name makes \<open>setName\<close>
  fail with the entity, its name and its other members, as it was.
\<close>

theorem invalid_input_leaves_state:
  "(\<not> spec_valid n h a \<longrightarrow>
      (\<exists>e. createWith n h a mem g = Inl (e, g))
      \<and> create_all ((With n h a, mem) # cs) g = create_all cs g)
   \<and> (\<not> spec_name_ok n \<longrightarrow> (\<exists>e. setName n (this, g) = Inl (e, (this, g))))"
proof (intro conjI impI)
  assume "\<not> spec_valid n h a"
  then obtain e where e: "createWith n h a mem g = Inl (e, g)"
    using createWith_fails by blast
  then show "\<exists>e. createWith n h a mem g = Inl (e, g)" by blast
  from e show "create_all ((With n h a, mem) # cs) g = create_all cs g" by simp
next
  assume "\<not> spec_name_ok n"
  then obtain e where "validateName n = Inl e" using validateName_rejects by blast
  then show "\<exists>e. setName n (this, g) = Inl (e, (this, g))" by simp
qed

theorem invalid_input_leaves_state_witness:
  "\<not> spec_valid ''bob'' 10 10
   \<and> (\<exists>e. createWith ''bob'' 10 10 zeroed statics0 = Inl (e, statics0))
   \<and> create_all [(With ''bob'' 10 10, zeroed)] statics0 = ([], statics0)
   \<and> \<not> spec_name_ok ''bob''
   \<and> (\<exists>e. setName ''bob'' (zeroed, statics0) = Inl (e, (zeroed, statics0)))"
proof -
  have a: "\<not> spec_name_ok ''bob''" by code_simp
  then have b: "\<not> spec_valid ''bob'' 10 10" by (simp add: spec_valid_def)
  show ?thesis
    using a b invalid_input_leaves_state [of "''bob''" 10 10 zeroed statics0 "[]" zeroed]
    by simp
qed

text \<open>
  C6. For every valid triple \<open>createWith\<close> succeeds, the accessors of the new entity return
  the three inputs, and \<open>toString\<close> is the name, the health in decimal and the attack power
  in decimal, joined by single spaces, with nothing after them. The two numerals are what
  \<open>to_string\<close> gives, they read back as the health and the attack power, and they are the
  only strings that do.
\<close>

theorem createWith_valid:
  "spec_valid n h a \<Longrightarrow>
   \<exists>this g' dh da. createWith n h a mem g = Inr (this, g')
     \<and> getName this = n \<and> getHealth this = h \<and> getAttackPower this = a
     \<and> toString this = n @ '' '' @ to_string (sint h) @ '' '' @ to_string (sint a)
     \<and> toString this = n @ '' '' @ dh @ '' '' @ da
     \<and> read_decimal dh = Some (sint h) \<and> read_decimal da = Some (sint a)
     \<and> (\<forall>s. read_decimal s = Some (sint h) \<longrightarrow> s = dh)
     \<and> (\<forall>s. read_decimal s = Some (sint a) \<longrightarrow> s = da)"
proof -
  assume v: "spec_valid n h a"
  let ?obj = "\<lparr>name = n, health = h, attackPower = a, id' = uniqueId g\<rparr>"
  let ?g = "g\<lparr>uniqueId := uniqueId g + 1, ObjectCount := ObjectCount g + 1\<rparr>"
  have c: "createWith n h a mem g = Inr (?obj, ?g)"
    by (rule createWith_succeeds[OF v])
  have t: "toString ?obj = n @ '' '' @ to_string (sint h) @ '' '' @ to_string (sint a)"
    by (simp add: toString_def)
  have u: "\<forall>s. read_decimal s = Some i \<longrightarrow> s = to_string i" for i
    using read_decimal_unique by blast
  have "createWith n h a mem g = Inr (?obj, ?g)
     \<and> getName ?obj = n \<and> getHealth ?obj = h \<and> getAttackPower ?obj = a
     \<and> toString ?obj = n @ '' '' @ to_string (sint h) @ '' '' @ to_string (sint a)
     \<and> toString ?obj = n @ '' '' @ to_string (sint h) @ '' '' @ to_string (sint a)
     \<and> read_decimal (to_string (sint h)) = Some (sint h)
     \<and> read_decimal (to_string (sint a)) = Some (sint a)
     \<and> (\<forall>s. read_decimal s = Some (sint h) \<longrightarrow> s = to_string (sint h))
     \<and> (\<forall>s. read_decimal s = Some (sint a) \<longrightarrow> s = to_string (sint a))"
    using c t u[of "sint h"] u[of "sint a"]
    by (simp add: getName_def getHealth_def getAttackPower_def read_decimal_to_string)
  then show ?thesis by blast
qed

theorem createWith_valid_witness:
  "spec_valid ''Leonardo da Vinci'' 1000 20
   \<and> (\<exists>this g'. createWith ''Leonardo da Vinci'' 1000 20 zeroed statics0 = Inr (this, g')
     \<and> getName this = ''Leonardo da Vinci'' \<and> getHealth this = 1000 \<and> getAttackPower this = 20
     \<and> toString this = ''Leonardo da Vinci 1000 20'')
   \<and> spec_valid ''Name'' (- 1) 0
   \<and> (\<exists>this g'. createWith ''Name'' (- 1) 0 zeroed statics0 = Inr (this, g')
     \<and> getName this = ''Name'' \<and> getHealth this = - 1 \<and> getAttackPower this = 0
     \<and> toString this = ''Name -1 0'')"
proof -
  have a: "spec_name_ok ''Leonardo da Vinci''" by code_simp
  then have v: "spec_valid ''Leonardo da Vinci'' 1000 20"
    by (simp add: spec_valid_def spec_health_ok_def spec_power_ok_def)
  have r: "read_decimal ''1000'' = Some 1000" "read_decimal ''20'' = Some 20"
    "read_decimal ''-1'' = Some (- 1)" "read_decimal ''0'' = Some 0"
    by code_simp+
  from createWith_valid [OF v, of zeroed statics0]
  obtain this g' dh da where
    f: "createWith ''Leonardo da Vinci'' 1000 20 zeroed statics0 = Inr (this, g')"
      "getName this = ''Leonardo da Vinci''" "getHealth this = 1000" "getAttackPower this = 20"
      "toString this = ''Leonardo da Vinci'' @ '' '' @ dh @ '' '' @ da"
      "\<forall>s. read_decimal s = Some (sint (1000 :: cint)) \<longrightarrow> s = dh"
      "\<forall>s. read_decimal s = Some (sint (20 :: cint)) \<longrightarrow> s = da"
    by blast
  from f(6,7) r(1,2) have "dh = ''1000''" "da = ''20''" by simp_all
  with f(5) have "toString this = ''Leonardo da Vinci 1000 20''" by simp
  with f(1-4) have one:
    "\<exists>this g'. createWith ''Leonardo da Vinci'' 1000 20 zeroed statics0 = Inr (this, g')
     \<and> getName this = ''Leonardo da Vinci'' \<and> getHealth this = 1000 \<and> getAttackPower this = 20
     \<and> toString this = ''Leonardo da Vinci 1000 20''"
    by blast
  from createWith_valid [OF default_valid, of zeroed statics0]
  obtain this g' dh da where
    f: "createWith ''Name'' (- 1) 0 zeroed statics0 = Inr (this, g')"
      "getName this = ''Name''" "getHealth this = - 1" "getAttackPower this = 0"
      "toString this = ''Name'' @ '' '' @ dh @ '' '' @ da"
      "\<forall>s. read_decimal s = Some (sint (- 1 :: cint)) \<longrightarrow> s = dh"
      "\<forall>s. read_decimal s = Some (sint (0 :: cint)) \<longrightarrow> s = da"
    by blast
  from f(6,7) r(3,4) have "dh = ''-1''" "da = ''0''" by simp_all
  with f(5) have "toString this = ''Name -1 0''" by simp
  with f(1-4) have two:
    "\<exists>this g'. createWith ''Name'' (- 1) 0 zeroed statics0 = Inr (this, g')
     \<and> getName this = ''Name'' \<and> getHealth this = - 1 \<and> getAttackPower this = 0
     \<and> toString this = ''Name -1 0''"
    by blast
  from v one default_valid two show ?thesis by blast
qed

section \<open>The static counters\<close>

lemma dispose_all_ObjectCount:
  "ObjectCount (dispose_all objs g) = ObjectCount g - of_nat (length objs)"
  by (induction objs arbitrary: g) (simp_all add: dispose_def)

lemma dispose_all_uniqueId: "uniqueId (dispose_all objs g) = uniqueId g"
  by (induction objs arbitrary: g) (simp_all add: dispose_def)

lemma sint_range32: "- 2147483648 \<le> sint (w :: cint) \<and> sint w \<le> 2147483647"
  using sint_ge[of w] sint_lt[of w] by simp

lemma sint_of_int32:
  "- 2147483648 \<le> k \<Longrightarrow> k \<le> 2147483647 \<Longrightarrow> sint (word_of_int k :: cint) = k"
  by (simp add: signed_of_int signed_take_bit_int_eq_self)

lemma sint_add_of_nat:
  assumes "sint (w :: cint) + int m \<le> 2147483647"
  shows "sint (w + of_nat m) = sint w + int m"
proof -
  have e: "w + of_nat m = word_of_int (sint w + int m)" by simp
  have r: "- 2147483648 \<le> sint w + int m" "sint w + int m \<le> 2147483647"
    using assms sint_range32[of w] by linarith+
  show ?thesis by (simp only: e sint_of_int32[OF r])
qed

lemma sint_sub_of_nat:
  assumes "int m \<le> sint (w :: cint) + 2147483648"
  shows "sint (w - of_nat m) = sint w - int m"
proof -
  have e: "w - of_nat m = word_of_int (sint w - int m)" by simp
  have r: "- 2147483648 \<le> sint w - int m" "sint w - int m \<le> 2147483647"
    using assms sint_range32[of w] by linarith+
  show ?thesis by (simp only: e sint_of_int32[OF r])
qed

text \<open>
  C9. Each disposal takes exactly one from \<open>ObjectCount\<close> and leaves \<open>uniqueId\<close> alone, so
  disposing \<open>M\<close> entities takes \<open>M\<close> from \<open>ObjectCount\<close>: in the arithmetic of \<open>int\<close> always,
  and as a number whenever the counter was at least \<open>M\<close>, as it is when it counts the live
  entities.
\<close>

theorem dispose_all_counts:
  "getObjectCount (dispose this g) = getObjectCount g - 1
   \<and> getIdCount (dispose this g) = getIdCount g
   \<and> getObjectCount (dispose_all objs g) = getObjectCount g - of_nat (length objs)
   \<and> getIdCount (dispose_all objs g) = getIdCount g
   \<and> (int (length objs) \<le> sint (getObjectCount g) \<longrightarrow>
        sint (getObjectCount (dispose_all objs g)) = sint (getObjectCount g) - int (length objs))"
proof (intro conjI impI)
  assume "int (length objs) \<le> sint (getObjectCount g)"
  then have "int (length objs) \<le> sint (ObjectCount g) + 2147483648"
    using sint_range32[of "ObjectCount g"] by (simp add: getObjectCount_def)
  then show "sint (getObjectCount (dispose_all objs g)) = sint (getObjectCount g) - int (length objs)"
    by (simp add: getObjectCount_def dispose_all_ObjectCount sint_sub_of_nat)
qed (simp_all add: getObjectCount_def getIdCount_def dispose_def dispose_all_ObjectCount
    dispose_all_uniqueId)

theorem dispose_all_counts_witness:
  "int (length [zeroed, zeroed]) \<le> sint (getObjectCount \<lparr>uniqueId = 3, ObjectCount = 3\<rparr>)
   \<and> sint (getObjectCount (dispose_all [zeroed, zeroed] \<lparr>uniqueId = 3, ObjectCount = 3\<rparr>)) = 1
   \<and> getIdCount (dispose_all [zeroed, zeroed] \<lparr>uniqueId = 3, ObjectCount = 3\<rparr>) = 3"
  using dispose_all_counts [of zeroed "\<lparr>uniqueId = 3, ObjectCount = 3\<rparr>" "[zeroed, zeroed]"]
  by (simp add: getObjectCount_def getIdCount_def)

lemma create_cases:
  "(\<exists>e. create c mem g = Inl (e, g))
   \<or> (\<exists>this. create c mem g
          = Inr (this, g\<lparr>uniqueId := uniqueId g + 1, ObjectCount := ObjectCount g + 1\<rparr>)
        \<and> id' this = uniqueId g)"
proof (cases c)
  case Default
  then show ?thesis
    by (simp add: createDefault_eq createWith_succeeds[OF default_valid])
next
  case (With n h a)
  then show ?thesis
    using createWith_succeeds[of n h a mem g] createWith_fails[of n h a mem g]
    by (cases "spec_valid n h a") auto
qed

lemma create_all_ids:
  "create_all cs g = (objs, g') \<Longrightarrow>
   map id' objs = map (\<lambda>i. uniqueId g + of_nat i) [0..<length objs]
   \<and> uniqueId g' = uniqueId g + of_nat (length objs)
   \<and> ObjectCount g' = ObjectCount g + of_nat (length objs)"
proof (induction cs arbitrary: g objs g')
  case Nil
  then show ?case by simp
next
  case (Cons x cs)
  obtain c mem where x: "x = (c, mem)" by (cases x)
  from create_cases[of c mem g] show ?case
  proof
    assume "\<exists>e. create c mem g = Inl (e, g)"
    then have "create_all (x # cs) g = create_all cs g" using x by auto
    with Cons show ?thesis by simp
  next
    let ?g1 = "g\<lparr>uniqueId := uniqueId g + 1, ObjectCount := ObjectCount g + 1\<rparr>"
    assume "\<exists>this. create c mem g = Inr (this, ?g1) \<and> id' this = uniqueId g"
    then obtain this where t: "create c mem g = Inr (this, ?g1)" "id' this = uniqueId g"
      by blast
    obtain objs1 g1 where r: "create_all cs ?g1 = (objs1, g1)" by (cases "create_all cs ?g1")
    with t x Cons.prems have o: "objs = this # objs1" "g' = g1" by simp_all
    from Cons.IH[OF r] t(2) show ?thesis
      by (simp add: o map_upt_Suc add.assoc del: upt_Suc)
  qed
qed

text \<open>
  C5, as stated: from whatever value \<open>k\<close> of the counter, the identities of \<open>N\<close> successful
  constructions are \<open>k, \<dots>, k + N - 1\<close>, and the counter never decreases. It fails at
  \<open>k = 2147483647\<close>, the largest \<open>int\<close>: the second identity is \<open>-2147483648\<close> and the counter
  ends below where it started.
\<close>

theorem ids_consecutive_counterexample:
  "map sint (map getPersonalId (fst (create_all
       [(With ''A'' 1 1, zeroed), (With ''A'' 1 1, zeroed)]
       \<lparr>uniqueId = 2147483647, ObjectCount = 0\<rparr>)))
     = [2147483647, - 2147483648]
   \<and> map sint (map getPersonalId (fst (create_all
       [(With ''A'' 1 1, zeroed), (With ''A'' 1 1, zeroed)]
       \<lparr>uniqueId = 2147483647, ObjectCount = 0\<rparr>)))
     \<noteq> [2147483647, 2147483647 + 1]
   \<and> sint (getIdCount (snd (create_all
       [(With ''A'' 1 1, zeroed), (With ''A'' 1 1, zeroed)]
       \<lparr>uniqueId = 2147483647, ObjectCount = 0\<rparr>))) = - 2147483647"
proof -
  have v: "spec_name_ok ''A''" by code_simp
  then have "spec_valid ''A'' 1 1"
    by (simp add: spec_valid_def spec_health_ok_def spec_power_ok_def)
  then show ?thesis
    by (simp add: createWith_succeeds getPersonalId_def getIdCount_def)
qed

text \<open>
  C5, amended. As long as the counter stays within \<open>int\<close> (\<open>k + N \<le> 2147483647\<close>), the
  identities of the \<open>N\<close> entities that a sequence of constructor calls creates are, in creation
  order, \<open>k, k + 1, \<dots>, k + N - 1\<close>, without gap or repeat, however many calls failed in
  between; the counter ends at \<open>k + N\<close>; and it starts at 0.
\<close>

theorem ids_consecutive:
  assumes "create_all cs g = (objs, g')"
    and "sint (getIdCount g) + int (length objs) \<le> 2147483647"
  shows "map (sint \<circ> getPersonalId) objs = map (\<lambda>i. sint (getIdCount g) + int i) [0..<length objs]
    \<and> distinct (map getPersonalId objs)
    \<and> sint (getIdCount g') = sint (getIdCount g) + int (length objs)
    \<and> getIdCount statics0 = 0"
proof -
  note ids = create_all_ids[OF assms(1)]
  have b: "sint (uniqueId g) + int (length objs) \<le> 2147483647"
    using assms(2) by (simp add: getIdCount_def)
  have "map (sint \<circ> getPersonalId) objs = map sint (map id' objs)"
    by (simp add: getPersonalId_def comp_def)
  also have "\<dots> = map (\<lambda>i. sint (uniqueId g + of_nat i)) [0..<length objs]"
    using ids by (simp add: comp_def)
  also have "\<dots> = map (\<lambda>i. sint (uniqueId g) + int i) [0..<length objs]"
    using b by (intro map_cong refl sint_add_of_nat) simp
  finally have m: "map (sint \<circ> getPersonalId) objs
      = map (\<lambda>i. sint (getIdCount g) + int i) [0..<length objs]"
    by (simp add: getIdCount_def)
  have "distinct (map (\<lambda>i. sint (getIdCount g) + int i) [0..<length objs])"
    by (simp add: distinct_map inj_on_def)
  then have "distinct (map sint (map getPersonalId objs))"
    using m by simp
  then have d: "distinct (map getPersonalId objs)"
    using distinct_map[of sint "map getPersonalId objs"] by blast
  have c: "sint (getIdCount g') = sint (getIdCount g) + int (length objs)"
    using ids b by (simp add: getIdCount_def sint_add_of_nat)
  show ?thesis using m d c by (simp add: getIdCount_def statics0_def)
qed

theorem ids_consecutive_witness:
  "create_all [(With ''Leonardo da Vinci'' 1000 20, zeroed), (With ''bob'' 10 10, zeroed),
      (Default, zeroed), (With ''Jack'' 10 30, zeroed)] statics0
     = ([\<lparr>name = ''Leonardo da Vinci'', health = 1000, attackPower = 20, id' = 0\<rparr>,
         \<lparr>name = ''Name'', health = - 1, attackPower = 0, id' = 1\<rparr>,
         \<lparr>name = ''Jack'', health = 10, attackPower = 30, id' = 2\<rparr>],
        \<lparr>uniqueId = 3, ObjectCount = 3\<rparr>)
   \<and> map (sint \<circ> getPersonalId)
        [\<lparr>name = ''Leonardo da Vinci'', health = 1000, attackPower = 20, id' = 0\<rparr>,
         \<lparr>name = ''Name'', health = - 1, attackPower = 0, id' = 1\<rparr>,
         \<lparr>name = ''Jack'', health = 10, attackPower = 30, id' = 2\<rparr>] = [0, 1, 2]
   \<and> sint (getIdCount \<lparr>uniqueId = 3, ObjectCount = 3\<rparr>) = 3"
proof -
  let ?cs = "[(With ''Leonardo da Vinci'' 1000 20, zeroed), (With ''bob'' 10 10, zeroed),
      (Default, zeroed), (With ''Jack'' 10 30, zeroed)]"
  let ?objs = "[\<lparr>name = ''Leonardo da Vinci'', health = 1000, attackPower = 20, id' = 0\<rparr>,
         \<lparr>name = ''Name'', health = - 1, attackPower = 0, id' = 1\<rparr>,
         \<lparr>name = ''Jack'', health = 10, attackPower = 30, id' = 2\<rparr>]"
  have n: "spec_name_ok ''Leonardo da Vinci''" "\<not> spec_name_ok ''bob''" "spec_name_ok ''Jack''"
    by code_simp+
  then have v: "spec_valid ''Leonardo da Vinci'' 1000 20" "\<not> spec_valid ''bob'' 10 10"
    "spec_valid ''Jack'' 10 30"
    by (simp_all add: spec_valid_def spec_health_ok_def spec_power_ok_def)
  have r: "create_all ?cs statics0 = (?objs, \<lparr>uniqueId = 3, ObjectCount = 3\<rparr>)"
    by (simp add: createWith_def createDefault_def construct_def init_def validateName_def
        validateName_loop.simps validateHealth_def validateAttackPower_def at_def outside_def
        char_int_def MAX_NAME_def MAX_HEALTH_def MAX_POWER_def word_sle_eq word_sless_alt
        statics0_def zeroed_def)
  have b: "sint (getIdCount statics0) + int (length ?objs) \<le> 2147483647"
    by (simp add: getIdCount_def statics0_def)
  show ?thesis
    using r ids_consecutive [OF r b] by (simp add: getIdCount_def statics0_def upt_rec)
qed

end
